theory Spec2Isabelle
  imports Complex_Main "HOL-Library.Word" "HOL-Library.Log_Nat"
begin

unbundle bit_operations_syntax

section \<open>JavaScript numbers and typed arrays\<close>

text \<open>
  A JavaScript number is an IEEE-754 double: a finite value, one of the two infinities, or
  NaN. Finite values are modelled by the real number they denote. The functions of
  \<^verbatim>\<open>src/utils/audioUtils.ts\<close> embedded below receive the elements of a
  \<^verbatim>\<open>Float32Array\<close>, whose finite elements have a 24-bit significand; clamping them,
  comparing them with 0 and multiplying them by \<open>0x8000\<close> or \<open>0x7FFF\<close> is exact in
  double precision (the product needs at most 39 significant bits), so on those inputs the
  real-number operations below compute what the program computes.
\<close>

datatype jsnumber = Fin real | PInf | NInf | NaN

fun Math_min :: "jsnumber \<Rightarrow> jsnumber \<Rightarrow> jsnumber" where
  "Math_min NaN _ = NaN"
| "Math_min _ NaN = NaN"
| "Math_min NInf _ = NInf"
| "Math_min _ NInf = NInf"
| "Math_min PInf y = y"
| "Math_min x PInf = x"
| "Math_min (Fin a) (Fin b) = Fin (min a b)"

fun Math_max :: "jsnumber \<Rightarrow> jsnumber \<Rightarrow> jsnumber" where
  "Math_max NaN _ = NaN"
| "Math_max _ NaN = NaN"
| "Math_max PInf _ = PInf"
| "Math_max _ PInf = PInf"
| "Math_max NInf y = y"
| "Math_max x NInf = x"
| "Math_max (Fin a) (Fin b) = Fin (max a b)"

text \<open>The relational operator \<open><\<close>: every comparison with NaN is false.\<close>

fun js_less :: "jsnumber \<Rightarrow> jsnumber \<Rightarrow> bool" where
  "js_less NaN _ = False"
| "js_less _ NaN = False"
| "js_less (Fin a) (Fin b) = (a < b)"
| "js_less NInf NInf = False"
| "js_less NInf _ = True"
| "js_less _ NInf = False"
| "js_less PInf _ = False"
| "js_less _ PInf = True"

text \<open>The operator \<open>*\<close>: NaN is contagious, and an infinity times zero is NaN.\<close>

fun js_sign :: "jsnumber \<Rightarrow> real" where
  "js_sign (Fin a) = sgn a"
| "js_sign PInf = 1"
| "js_sign NInf = -1"
| "js_sign NaN = 0"

fun js_mult :: "jsnumber \<Rightarrow> jsnumber \<Rightarrow> jsnumber" where
  "js_mult NaN _ = NaN"
| "js_mult _ NaN = NaN"
| "js_mult (Fin a) (Fin b) = Fin (a * b)"
| "js_mult x y =
     (if js_sign x * js_sign y = 0 then NaN
      else if 0 < js_sign x * js_sign y then PInf else NInf)"





text \<open>
  Storing a number into an \<^verbatim>\<open>Int16Array\<close> applies the abstract operation ToInt16:
  NaN and the infinities become 0, a finite value is truncated towards zero and then
  reduced modulo \<open>2^16\<close> into the signed 16-bit range.
\<close>

definition js_truncate :: "real \<Rightarrow> int" where
  "js_truncate r = (if r < 0 then \<lceil>r\<rceil> else \<lfloor>r\<rfloor>)"

fun ToInt16 :: "jsnumber \<Rightarrow> 16 word" where
  "ToInt16 (Fin r) = word_of_int (js_truncate r)"
| "ToInt16 PInf = 0"
| "ToInt16 NInf = 0"
| "ToInt16 NaN = 0"

text \<open>
  \<^verbatim>\<open>int16Array.buffer\<close> and \<^verbatim>\<open>new Int16Array(buffer)\<close>: the byte view of 16-bit samples,
  low byte first. The constructor throws a RangeError when the byte length is odd.
\<close>

datatype error =
    RangeError
  | InvalidCharacterError
  | NotSupportedError
  | InvalidStateError
  | TypeError
  | DOMException

fun buffer_of_Int16Array :: "16 word list \<Rightarrow> 8 word list" where
  "buffer_of_Int16Array [] = []"
| "buffer_of_Int16Array (w # ws) = ucast w # ucast (drop_bit 8 w) # buffer_of_Int16Array ws"

fun int16_view :: "8 word list \<Rightarrow> 16 word list" where
  "int16_view (lo # hi # bs) = (ucast lo OR push_bit 8 (ucast hi)) # int16_view bs"
| "int16_view _ = []"

definition new_Int16Array :: "8 word list \<Rightarrow> error + 16 word list" where
  "new_Int16Array buffer =
     (if even (length buffer) then Inr (int16_view buffer) else Inl RangeError)"

section \<open>The PCM encoder\<close>

text \<open>
  \<^verbatim>\<open>float32ToInt16PCM\<close>, lines 100 to 109: the body of the loop for one sample, and the
  loop over the array followed by \<^verbatim>\<open>.buffer\<close>.
\<close>

definition encode_sample :: "jsnumber \<Rightarrow> 16 word" where
  "encode_sample x =
     (let s = Math_max (Fin (- 1)) (Math_min (Fin 1) x)
      in ToInt16 (if js_less s (Fin 0) then js_mult s (Fin 32768) else js_mult s (Fin 32767)))"

definition float32ToInt16PCM :: "jsnumber list \<Rightarrow> 8 word list" where
  "float32ToInt16PCM float32Array = buffer_of_Int16Array (map encode_sample float32Array)"

section \<open>The PCM decoder\<close>

text \<open>
  The inner loop of \<^verbatim>\<open>playPCMAudio\<close> (lines 77 to 83) and of \<^verbatim>\<open>playChunk\<close>
  (lines 149 to 154), with \<open>numChannels = 1\<close>: every 16-bit sample is divided by
  \<open>32768.0\<close>. The quotient is exact in a \<^verbatim>\<open>Float32Array\<close> element.
\<close>

definition decode_sample :: "16 word \<Rightarrow> jsnumber" where
  "decode_sample w = Fin (real_of_int (sint w) / 32768)"

definition fill_channelData :: "16 word list \<Rightarrow> jsnumber list" where
  "fill_channelData dataInt16 = map decode_sample dataInt16"

text \<open>
  The statement of the encoder in the words of the specification: clamp to the closed
  range from \<open>-1\<close> to \<open>1\<close>, scale a negative value by 32768 and any other by 32767,
  truncate towards zero.
\<close>

definition clamp_unit :: "real \<Rightarrow> real" where
  "clamp_unit r = (if r < - 1 then - 1 else if 1 < r then 1 else r)"

definition spec_encode :: "real \<Rightarrow> int" where
  "spec_encode r =
     (let c = clamp_unit r in js_truncate (if c < 0 then c * 32768 else c * 32767))"

section \<open>The transport encoding\<close>

text \<open>
  A JavaScript string is a sequence of 16-bit code units. \<^verbatim>\<open>btoa\<close> and \<^verbatim>\<open>atob\<close>
  are functions of the browser; the definitions below follow the algorithms the web
  standard gives for them (forgiving-base64 encode and decode of the Infra standard).
\<close>

type_synonym jsstring = "16 word list"

definition pad :: "16 word" where
  "pad = 61"

definition b64_char :: "nat \<Rightarrow> 16 word" where
  "b64_char n =
     (if n < 26 then of_nat (65 + n)
      else if n < 52 then of_nat (97 + (n - 26))
      else if n < 62 then of_nat (48 + (n - 52))
      else if n = 62 then 43
      else 47)"

definition b64_index :: "16 word \<Rightarrow> nat option" where
  "b64_index c =
     (let k = unat c in
      if 65 \<le> k \<and> k \<le> 90 then Some (k - 65)
      else if 97 \<le> k \<and> k \<le> 122 then Some (k - 71)
      else if 48 \<le> k \<and> k \<le> 57 then Some (k + 4)
      else if k = 43 then Some 62
      else if k = 47 then Some 63
      else None)"

definition ascii_whitespace :: "16 word \<Rightarrow> bool" where
  "ascii_whitespace c \<longleftrightarrow> c = 9 \<or> c = 10 \<or> c = 12 \<or> c = 13 \<or> c = 32"

text \<open>Three bytes become four characters; a last group of one or two bytes is padded.\<close>

fun base64_encode :: "nat list \<Rightarrow> jsstring" where
  "base64_encode [] = []"
| "base64_encode [a] = [b64_char (a div 4), b64_char (a mod 4 * 16), pad, pad]"
| "base64_encode [a, b] =
     [b64_char (a div 4), b64_char (a mod 4 * 16 + b div 16), b64_char (b mod 16 * 4), pad]"
| "base64_encode (a # b # c # bytes) =
     b64_char (a div 4) # b64_char (a mod 4 * 16 + b div 16) #
     b64_char (b mod 16 * 4 + c div 64) # b64_char (c mod 64) # base64_encode bytes"

text \<open>The same groups before they are written as characters, without padding.\<close>

fun sextets :: "nat list \<Rightarrow> nat list" where
  "sextets [] = []"
| "sextets [a] = [a div 4, a mod 4 * 16]"
| "sextets [a, b] = [a div 4, a mod 4 * 16 + b div 16, b mod 16 * 4]"
| "sextets (a # b # c # bytes) =
     a div 4 # (a mod 4 * 16 + b div 16) # (b mod 16 * 4 + c div 64) # c mod 64 # sextets bytes"

text \<open>The text alphabet: the letters, the digits, \<open>+\<close>, \<open>/\<close> and the padding \<open>=\<close>.\<close>

definition base64_text_char :: "16 word \<Rightarrow> bool" where
  "base64_text_char c =
     (let k = unat c in
      (65 \<le> k \<and> k \<le> 90) \<or> (97 \<le> k \<and> k \<le> 122) \<or> (48 \<le> k \<and> k \<le> 57) \<or>
      k = 43 \<or> k = 47 \<or> k = 61)"

definition btoa :: "jsstring \<Rightarrow> error + jsstring" where
  "btoa data =
     (if list_ex (\<lambda>c. 255 < unat c) data then Inl InvalidCharacterError
      else Inr (base64_encode (map unat data)))"

text \<open>
  Decoding: white space is removed; when the length is then a multiple of four, one or two
  trailing padding characters are removed; a length that leaves remainder 1 and any
  character outside the alphabet are failures; every four characters give three bytes,
  and the spare bits of a last group of two or three characters are dropped.
\<close>

definition strip_tail :: "jsstring \<Rightarrow> jsstring" where
  "strip_tail d =
     (if d \<noteq> [] \<and> last d = pad then
        (if butlast d \<noteq> [] \<and> last (butlast d) = pad then butlast (butlast d)
         else butlast d)
      else d)"

definition strip_padding :: "jsstring \<Rightarrow> jsstring" where
  "strip_padding d = (if length d mod 4 = 0 then strip_tail d else d)"

fun decode_sextets :: "nat list \<Rightarrow> nat list" where
  "decode_sextets (s1 # s2 # s3 # s4 # rest) =
     (s1 * 4 + s2 div 16) mod 256 # (s2 mod 16 * 16 + s3 div 4) mod 256 #
     (s3 mod 4 * 64 + s4) mod 256 # decode_sextets rest"
| "decode_sextets [s1, s2, s3] =
     [(s1 * 4 + s2 div 16) mod 256, (s2 mod 16 * 16 + s3 div 4) mod 256]"
| "decode_sextets [s1, s2] = [(s1 * 4 + s2 div 16) mod 256]"
| "decode_sextets _ = []"

definition atob :: "jsstring \<Rightarrow> error + jsstring" where
  "atob data =
     (let d = strip_padding (filter (\<lambda>c. \<not> ascii_whitespace c) data) in
      if length d mod 4 = 1 then Inl InvalidCharacterError
      else case those (map b64_index d) of
             None \<Rightarrow> Inl InvalidCharacterError
           | Some indices \<Rightarrow> Inr (map of_nat (decode_sextets indices)))"

text \<open>
  \<^verbatim>\<open>base64ToUint8Array\<close>, lines 44 to 52: the loop stores each code unit of the binary
  string into a \<^verbatim>\<open>Uint8Array\<close>, which keeps its low eight bits.
\<close>

definition base64ToUint8Array :: "jsstring \<Rightarrow> error + 8 word list" where
  "base64ToUint8Array base64 =
     (case atob base64 of
        Inl e \<Rightarrow> Inl e
      | Inr binaryString \<Rightarrow> Inr (map ucast binaryString))"

text \<open>
  \<^verbatim>\<open>arrayBufferToBase64\<close>, lines 114 to 122: \<^verbatim>\<open>String.fromCharCode\<close> of a byte is the
  code unit of the same value; the loop appends them in order.
\<close>

definition arrayBufferToBase64 :: "8 word list \<Rightarrow> error + jsstring" where
  "arrayBufferToBase64 buffer = btoa (map ucast buffer)"

section \<open>The audio context\<close>

text \<open>
  The browser's audio context is outside the program. What it answers during one call is
  gathered in a record: whether its constructor throws, whether it is suspended and whether
  \<^verbatim>\<open>resume()\<close> is then rejected, the \<^verbatim>\<open>duration\<close> it gives to a buffer of a number of
  frames, the reading of \<^verbatim>\<open>currentTime\<close>, and the node \<^verbatim>\<open>createBufferSource()\<close> returns.
  Times are values of any linearly ordered type with an addition; no law of addition is
  assumed, so what is proved of the cursor also holds of rounded double-precision sums.
\<close>

record 't env =
  ctor_error :: "error option"
  suspended :: bool
  resume_error :: "error option"
  buffer_duration :: "nat \<Rightarrow> 't"
  currentTime :: 't
  new_source :: nat

record 't AudioBuffer =
  channelData :: "jsnumber list"
  duration :: 't

definition resume :: "'t env \<Rightarrow> error + unit" where
  "resume env =
     (if suspended env then
        (case resume_error env of Some e \<Rightarrow> Inl e | None \<Rightarrow> Inr ())
      else Inr ())"

text \<open>\<^verbatim>\<open>createBuffer(1, frameCount, 24000)\<close> refuses a buffer of no frames.\<close>

definition createBuffer :: "'t env \<Rightarrow> nat \<Rightarrow> error + 't AudioBuffer" where
  "createBuffer env frameCount =
     (if frameCount = 0 then Inl NotSupportedError
      else Inr \<lparr>channelData = replicate frameCount (Fin 0),
                duration = buffer_duration env frameCount\<rparr>)"

text \<open>
  Lines 65 to 83 of \<^verbatim>\<open>playPCMAudio\<close> and lines 141 to 154 of \<^verbatim>\<open>playChunk\<close> are the
  same statements: decode the text, view the bytes as 16-bit samples, create the buffer
  and fill its channel.
\<close>

definition decode_pcm :: "'t env \<Rightarrow> jsstring \<Rightarrow> error + 't AudioBuffer" where
  "decode_pcm env base64Audio =
     (case base64ToUint8Array base64Audio of
        Inl e \<Rightarrow> Inl e
      | Inr data \<Rightarrow>
          (case new_Int16Array data of
             Inl e \<Rightarrow> Inl e
           | Inr dataInt16 \<Rightarrow>
               (case createBuffer env (length dataInt16) of
                  Inl e \<Rightarrow> Inl e
                | Inr buffer \<Rightarrow> Inr (buffer\<lparr>channelData := fill_channelData dataInt16\<rparr>))))"

section \<open>One-shot playback\<close>

text \<open>
  \<^verbatim>\<open>playPCMAudio\<close>, lines 54 to 93. The state it touches: the module variable
  \<^verbatim>\<open>audioContext\<close> (null or not), the console, and the buffers handed to
  \<^verbatim>\<open>source.start(0)\<close>. The first function is the \<^verbatim>\<open>try\<close> block, which returns what it
  threw or the buffer it started together with the state it left; the second adds the
  \<^verbatim>\<open>catch\<close> clause and returns how the promise settles, \<open>Inl\<close> for a rejection.
\<close>

record page =
  audioContext :: bool
  console :: "error list"
  started :: "jsnumber list list"

definition playPCMAudio_try :: "'t env \<Rightarrow> jsstring \<Rightarrow> page \<Rightarrow> (error + 't AudioBuffer) \<times> page" where
  "playPCMAudio_try env base64Audio g =
     (case (if audioContext g then None else ctor_error env) of
        Some e \<Rightarrow> (Inl e, g)
      | None \<Rightarrow>
          (let g1 = g\<lparr>audioContext := True\<rparr> in
           case resume env of
             Inl e \<Rightarrow> (Inl e, g1)
           | Inr _ \<Rightarrow>
               (case decode_pcm env base64Audio of
                  Inl e \<Rightarrow> (Inl e, g1)
                | Inr buffer \<Rightarrow>
                    (Inr buffer, g1\<lparr>started := started g1 @ [channelData buffer]\<rparr>))))"

definition playPCMAudio :: "'t env \<Rightarrow> jsstring \<Rightarrow> page \<Rightarrow> error + page" where
  "playPCMAudio env base64Audio g =
     (case playPCMAudio_try env base64Audio g of
        (Inl e, g') \<Rightarrow> Inr (g'\<lparr>console := console g' @ [e]\<rparr>)
      | (Inr _, g') \<Rightarrow> Inr g')"

section \<open>The streaming player\<close>

text \<open>
  \<^verbatim>\<open>LiveAudioPlayer\<close>, lines 127 to 181. A source node is named by a number. A call of
  \<^verbatim>\<open>playChunk\<close> that is not rejected returns the node it started, the time it passed to
  \<^verbatim>\<open>source.start\<close> and the buffer, with the new state of the player; a rejected call
  has changed nothing. \<^verbatim>\<open>stop\<close> returns the nodes it called \<^verbatim>\<open>source.stop()\<close> on, in
  order; a node enters the queue only after it has been started, so none of these calls
  throws.
\<close>

record 't LiveAudioPlayer =
  nextStartTime :: 't
  queue :: "nat list"

record 't scheduled =
  node :: nat
  start_at :: 't
  played :: "'t AudioBuffer"

definition constructor :: "'t::zero env \<Rightarrow> error + 't LiveAudioPlayer" where
  "constructor env =
     (case ctor_error env of
        Some e \<Rightarrow> Inl e
      | None \<Rightarrow> Inr \<lparr>nextStartTime = 0, queue = []\<rparr>)"

text \<open>Lines 156 to 169: set the cursor forward if it is behind, start, advance, push.\<close>

definition schedule ::
  "'t::{plus,ord} \<Rightarrow> nat \<Rightarrow> 't AudioBuffer \<Rightarrow> 't LiveAudioPlayer \<Rightarrow> 't scheduled \<times> 't LiveAudioPlayer" where
  "schedule now source buffer p =
     (let p1 = (if nextStartTime p < now then p\<lparr>nextStartTime := now\<rparr> else p);
          s = \<lparr>node = source, start_at = nextStartTime p1, played = buffer\<rparr>;
          p2 = p1\<lparr>nextStartTime := nextStartTime p1 + duration buffer\<rparr>
      in (s, p2\<lparr>queue := queue p2 @ [source]\<rparr>))"

definition playChunk ::
  "'t::{plus,ord} env \<Rightarrow> jsstring \<Rightarrow> 't LiveAudioPlayer \<Rightarrow> error + 't scheduled \<times> 't LiveAudioPlayer" where
  "playChunk env base64Audio p =
     (case resume env of
        Inl e \<Rightarrow> Inl e
      | Inr _ \<Rightarrow>
          (case decode_pcm env base64Audio of
             Inl e \<Rightarrow> Inl e
           | Inr buffer \<Rightarrow> Inr (schedule (currentTime env) (new_source env) buffer p)))"

text \<open>The \<^verbatim>\<open>onended\<close> handler of a node, lines 171 to 173.\<close>

definition onended :: "nat \<Rightarrow> 't LiveAudioPlayer \<Rightarrow> 't LiveAudioPlayer" where
  "onended source p = p\<lparr>queue := filter (\<lambda>s. s \<noteq> source) (queue p)\<rparr>"

definition stop :: "'t::zero LiveAudioPlayer \<Rightarrow> nat list \<times> 't LiveAudioPlayer" where
  "stop p = (queue p, p\<lparr>queue := [], nextStartTime := 0\<rparr>)"

text \<open>
  A playback session is a sequence of calls and events, handled one at a time. A rejected
  \<^verbatim>\<open>playChunk\<close> schedules nothing and the session goes on. \<open>run\<close> returns the sources
  scheduled, in order, and the last state.
\<close>

datatype 't call = PlayChunk "'t env" jsstring | Stop | Ended nat

fun run ::
  "'t::{zero,plus,ord} call list \<Rightarrow> 't LiveAudioPlayer \<Rightarrow> 't scheduled list \<times> 't LiveAudioPlayer" where
  "run [] p = ([], p)"
| "run (PlayChunk env base64Audio # cs) p =
     (case playChunk env base64Audio p of
        Inl e \<Rightarrow> run cs p
      | Inr (s, p') \<Rightarrow> (case run cs p' of (ss, p'') \<Rightarrow> (s # ss, p'')))"
| "run (Stop # cs) p = run cs (snd (stop p))"
| "run (Ended source # cs) p = run cs (onended source p)"

text \<open>
  Arrival keeps ahead of the output clock: at every chunk that is scheduled, the clock
  has not passed the cursor.
\<close>

fun keeps_ahead :: "'t::{zero,plus,linorder} call list \<Rightarrow> 't LiveAudioPlayer \<Rightarrow> bool" where
  "keeps_ahead [] p = True"
| "keeps_ahead (PlayChunk env base64Audio # cs) p =
     (case playChunk env base64Audio p of
        Inl e \<Rightarrow> keeps_ahead cs p
      | Inr (s, p') \<Rightarrow> currentTime env \<le> nextStartTime p \<and> keeps_ahead cs p')"
| "keeps_ahead (Stop # cs) p = keeps_ahead cs (snd (stop p))"
| "keeps_ahead (Ended source # cs) p = keeps_ahead cs (onended source p)"

section \<open>The local database\<close>









section \<open>Example data\<close>

text \<open>
  An audio context that is running, reads \<open>t\<close> on its clock, gives every buffer the
  duration 1 and returns the node \<open>n\<close>; a user who last read on the day before; and the
  answers of the browser on the following day.
\<close>

definition clock :: "int \<Rightarrow> nat \<Rightarrow> int env" where
  "clock t n = \<lparr>ctor_error = None, suspended = False, resume_error = None,
     buffer_duration = (\<lambda>frames. 1), currentTime = t, new_source = n\<rparr>"



section \<open>The encoder and the decoder\<close>

lemma sint16: "- 32768 \<le> i \<Longrightarrow> i \<le> 32767 \<Longrightarrow> sint (word_of_int i :: 16 word) = i"
  by (simp add: sint_sbintrunc' signed_take_bit_int_eq_self)

lemma js_truncate_bounds:
  "- 32768 \<le> r \<Longrightarrow> r \<le> 32767 \<Longrightarrow> - 32768 \<le> js_truncate r \<and> js_truncate r \<le> 32767"
  unfolding js_truncate_def by (auto simp: le_floor_iff floor_le_iff ceiling_le_iff le_ceiling_iff)

lemma encode_sample_Fin: "encode_sample (Fin r) = word_of_int (spec_encode r)"
  by (auto simp: encode_sample_def spec_encode_def clamp_unit_def Let_def min_def max_def)

lemma spec_encode_range: "- 32768 \<le> spec_encode r \<and> spec_encode r \<le> 32767"
  unfolding spec_encode_def Let_def
  by (rule js_truncate_bounds) (auto simp: clamp_unit_def)

lemma sint_encode_sample: "sint (encode_sample (Fin r)) = spec_encode r"
  using spec_encode_range [of r] by (simp add: encode_sample_Fin sint16)

lemma join_split:
  "ucast (ucast w :: 8 word) OR push_bit 8 (ucast (ucast (drop_bit 8 w) :: 8 word)) = (w :: 16 word)"
  by (rule bit_word_eqI) (auto simp: bit_simps)

lemma view_buffer: "int16_view (buffer_of_Int16Array ws) = ws"
  by (induction ws) (simp_all add: join_split)

lemma length_buffer: "length (buffer_of_Int16Array ws) = 2 * length ws"
  by (induction ws) simp_all

lemma new_Int16Array_buffer: "new_Int16Array (buffer_of_Int16Array ws) = Inr ws"
  by (simp add: new_Int16Array_def length_buffer view_buffer)

lemma new_Int16Array_encode:
  "new_Int16Array (float32ToInt16PCM xs) = Inr (map encode_sample xs)"
  by (simp add: float32ToInt16PCM_def new_Int16Array_buffer)

text \<open>
  Claim C4. For every sequence of samples the encoder clamps each sample to the range from
  \<open>-1\<close> to \<open>1\<close>, scales a negative value by 32768 and any other by 32767 and truncates
  towards zero; the 16-bit sample stored is that integer itself, never a wrapped one; the
  infinities are clamped to the bounds; and the four samples 0.5, -0.5, 1 and -1 give
  16383, -16384, 32767 and -32768.
\<close>

theorem float32ToInt16PCM_clamps_scales_truncates:
  "(\<exists>out. new_Int16Array (float32ToInt16PCM (map Fin samples)) = Inr out
        \<and> map sint out = map spec_encode samples)
   \<and> - 1 \<le> clamp_unit r \<and> clamp_unit r \<le> 1
   \<and> - 32768 \<le> spec_encode r \<and> spec_encode r \<le> 32767
   \<and> sint (encode_sample PInf) = 32767 \<and> sint (encode_sample NInf) = - 32768
   \<and> (\<exists>out. new_Int16Array (float32ToInt16PCM [Fin (1 / 2), Fin (- (1 / 2)), Fin 1, Fin (- 1)]) = Inr out
        \<and> map sint out = [16383, - 16384, 32767, - 32768])"
proof (intro conjI)
  show "\<exists>out. new_Int16Array (float32ToInt16PCM (map Fin samples)) = Inr out
        \<and> map sint out = map spec_encode samples"
    by (simp add: new_Int16Array_encode sint_encode_sample)
  show "- 1 \<le> clamp_unit r" "clamp_unit r \<le> 1"
    by (simp_all add: clamp_unit_def)
  show "- 32768 \<le> spec_encode r" "spec_encode r \<le> 32767"
    using spec_encode_range [of r] by simp_all
  show "sint (encode_sample PInf) = 32767" "sint (encode_sample NInf) = - 32768"
    by (simp_all add: encode_sample_def js_truncate_def)
  show "\<exists>out. new_Int16Array (float32ToInt16PCM [Fin (1 / 2), Fin (- (1 / 2)), Fin 1, Fin (- 1)]) = Inr out
        \<and> map sint out = [16383, - 16384, 32767, - 32768]"
    by (simp add: new_Int16Array_encode sint_encode_sample spec_encode_def clamp_unit_def
        js_truncate_def)
qed

lemma reencode_int:
  assumes lo: "- 32768 \<le> i" and hi: "i < 32768"
  shows "spec_encode (real_of_int i / 32768) = (if 0 < i then i - 1 else i)"
proof -
  have c: "clamp_unit (real_of_int i / 32768) = real_of_int i / 32768"
    using lo hi by (simp add: clamp_unit_def)
  show ?thesis
  proof (cases "0 < i")
    case False
    then show ?thesis
      by (auto simp: spec_encode_def c js_truncate_def Let_def)
  next
    case True
    have "\<lfloor>real_of_int i / 32768 * 32767\<rfloor> = i - 1"
    proof (rule floor_unique)
      show "real_of_int (i - 1) \<le> real_of_int i / 32768 * 32767"
        using hi True by simp
      show "real_of_int i / 32768 * 32767 < real_of_int (i - 1) + 1"
        using True by simp
    qed
    then show ?thesis
      using True by (simp add: spec_encode_def c js_truncate_def Let_def)
  qed
qed

lemma reencode_sample:
  "encode_sample (decode_sample w) = (if 0 < sint w then w - 1 else w)"
proof -
  have "- 32768 \<le> sint w"
    using sint_ge [of w] by simp
  moreover have "sint w < 32768"
    using sint_lt [of w] by simp
  ultimately have
    "spec_encode (real_of_int (sint w) / 32768) = (if 0 < sint w then sint w - 1 else sint w)"
    by (rule reencode_int)
  then show ?thesis
    unfolding decode_sample_def encode_sample_Fin by simp
qed

lemma err_negative:
  fixes d x :: real
  shows "x * 32768 \<le> d \<Longrightarrow> d < x * 32768 + 1 \<Longrightarrow>
    0 \<le> d / 32768 - x \<and> d / 32768 - x < 1 / 32768"
  by (auto simp: field_simps)

lemma err_nonnegative:
  fixes d x :: real
  shows "d \<le> x * 32767 \<Longrightarrow> x * 32767 < d + 1 \<Longrightarrow> 0 \<le> x \<Longrightarrow>
    0 \<le> x - d / 32768 \<and> x - d / 32768 < (1 + x) / 32768"
  by (auto simp: field_simps)

lemma spec_encode_negative:
  assumes "- 1 \<le> x" "x < 0"
  shows "0 \<le> real_of_int (spec_encode x) / 32768 - x
       \<and> real_of_int (spec_encode x) / 32768 - x < 1 / 32768"
proof -
  have e: "spec_encode x = \<lceil>x * 32768\<rceil>"
    using assms by (simp add: spec_encode_def clamp_unit_def js_truncate_def)
  have "x * 32768 \<le> real_of_int \<lceil>x * 32768\<rceil>"
    by (rule le_of_int_ceiling)
  moreover have "real_of_int \<lceil>x * 32768\<rceil> < x * 32768 + 1"
    by linarith
  ultimately show ?thesis
    unfolding e by (rule err_negative)
qed

lemma spec_encode_nonnegative:
  assumes "0 \<le> x" "x \<le> 1"
  shows "0 \<le> x - real_of_int (spec_encode x) / 32768
       \<and> x - real_of_int (spec_encode x) / 32768 < (1 + x) / 32768"
proof -
  have e: "spec_encode x = \<lfloor>x * 32767\<rfloor>"
    using assms by (simp add: spec_encode_def clamp_unit_def js_truncate_def)
  have "real_of_int \<lfloor>x * 32767\<rfloor> \<le> x * 32767"
    by (rule of_int_floor_le)
  moreover have "x * 32767 < real_of_int \<lfloor>x * 32767\<rfloor> + 1"
    by linarith
  ultimately show ?thesis
    unfolding e using assms(1) by (rule err_nonnegative)
qed

lemma decode_encode_Fin:
  "decode_sample (encode_sample (Fin x)) = Fin (real_of_int (spec_encode x) / 32768)"
  unfolding decode_sample_def sint_encode_sample ..

text \<open>
  Claim C5, as stated: decoding a byte sequence of even length and encoding the result
  again gives back every 16-bit sample. It fails for the two bytes 1, 0, the sample 1:
  1/32768 times 32767 is truncated to 0.
\<close>

theorem reencode_lossless_counterexample:
  "even (length [1, 0 :: 8 word])
   \<and> new_Int16Array [1, 0] = Inr [1]
   \<and> new_Int16Array (float32ToInt16PCM (fill_channelData [1])) = Inr [0]
   \<and> (0 :: 16 word) \<noteq> 1"
  by (simp add: new_Int16Array_encode fill_channelData_def reencode_sample)
    (simp add: new_Int16Array_def)

text \<open>
  Claim C5, amended. For every byte sequence of even length, decoding and encoding again
  gives back every sample that is zero or negative, and every positive sample less one.
\<close>

theorem reencode_positive_less_one:
  assumes "even (length bytes)"
  shows "\<exists>dataInt16. new_Int16Array bytes = Inr dataInt16
       \<and> new_Int16Array (float32ToInt16PCM (fill_channelData dataInt16)) =
           Inr (map (\<lambda>w. if 0 < sint w then w - 1 else w) dataInt16)"
proof -
  have "new_Int16Array bytes = Inr (int16_view bytes)"
    using assms by (simp add: new_Int16Array_def)
  moreover have "new_Int16Array (float32ToInt16PCM (fill_channelData (int16_view bytes))) =
      Inr (map (\<lambda>w. if 0 < sint w then w - 1 else w) (int16_view bytes))"
    by (simp add: new_Int16Array_encode fill_channelData_def reencode_sample o_def)
  ultimately show ?thesis
    by blast
qed

theorem reencode_positive_less_one_witness:
  "even (length [1, 0, 255, 255 :: 8 word])
   \<and> (\<exists>dataInt16. new_Int16Array [1, 0, 255, 255] = Inr dataInt16
       \<and> new_Int16Array (float32ToInt16PCM (fill_channelData dataInt16)) =
           Inr (map (\<lambda>w. if 0 < sint w then w - 1 else w) dataInt16))"
  using reencode_positive_less_one [of "[1, 0, 255, 255]"] by simp

text \<open>
  Claim C6, as stated: for a sample between \<open>-1\<close> and \<open>1\<close>, encoding and then dividing
  by 32768 gives a value within 1/32768 of the sample, the two ends of the range apart.
  It fails in the middle of the range, at 32769/65536: the sample is encoded as 16383, and
  16383/32768 is 3/65536 away.
\<close>

theorem encode_decode_error_counterexample:
  "- 1 \<le> (32769 / 65536 :: real) \<and> (32769 / 65536 :: real) \<le> 1
   \<and> (32769 / 65536 :: real) \<noteq> 1 \<and> (32769 / 65536 :: real) \<noteq> - 1
   \<and> decode_sample (encode_sample (Fin (32769 / 65536))) = Fin (16383 / 32768)
   \<and> \<not> \<bar>16383 / 32768 - 32769 / 65536 :: real\<bar> \<le> 1 / 32768"
  by (simp add: decode_encode_Fin spec_encode_def clamp_unit_def js_truncate_def)

text \<open>
  Claim C6, amended. For a sample \<open>x\<close> between \<open>-1\<close> and \<open>1\<close>, encoding and then dividing
  by 32768 gives a value \<open>y\<close> that is never larger in magnitude than \<open>x\<close>: for a negative
  sample \<open>y - x\<close> is less than 1/32768, and for any other sample \<open>x - y\<close> is less than
  \<open>(1 + x)/32768\<close>, so less than two steps. At the ends, 1 gives 32767/32768 and \<open>-1\<close>
  gives \<open>-1\<close>.
\<close>

theorem encode_decode_error:
  assumes "- 1 \<le> x" and "x \<le> 1"
  shows "(\<exists>y. decode_sample (encode_sample (Fin x)) = Fin y
          \<and> (x < 0 \<longrightarrow> 0 \<le> y - x \<and> y - x < 1 / 32768)
          \<and> (0 \<le> x \<longrightarrow> 0 \<le> x - y \<and> x - y < (1 + x) / 32768)
          \<and> \<bar>y - x\<bar> < 2 / 32768)
       \<and> decode_sample (encode_sample (Fin 1)) = Fin (32767 / 32768)
       \<and> decode_sample (encode_sample (Fin (- 1))) = Fin (- 1)"
proof -
  let ?y = "real_of_int (spec_encode x) / 32768"
  have neg: "x < 0 \<longrightarrow> 0 \<le> ?y - x \<and> ?y - x < 1 / 32768"
    using spec_encode_negative [of x] assms by blast
  have pos: "0 \<le> x \<longrightarrow> 0 \<le> x - ?y \<and> x - ?y < (1 + x) / 32768"
    using spec_encode_nonnegative [of x] assms by blast
  have "(1 + x) / 32768 \<le> 2 / 32768"
    using assms by simp
  then have both: "\<bar>?y - x\<bar> < 2 / 32768"
    using neg pos by (cases "x < 0") auto
  have ends: "decode_sample (encode_sample (Fin 1)) = Fin (32767 / 32768)"
    "decode_sample (encode_sample (Fin (- 1))) = Fin (- 1)"
    by (simp_all add: decode_encode_Fin spec_encode_def clamp_unit_def js_truncate_def)
  show ?thesis
    using neg pos both ends decode_encode_Fin [of x] by blast
qed

theorem encode_decode_error_witness:
  "- 1 \<le> (1 / 2 :: real) \<and> (1 / 2 :: real) \<le> 1
   \<and> (\<exists>y. decode_sample (encode_sample (Fin (1 / 2))) = Fin y
          \<and> 0 \<le> 1 / 2 - y \<and> 1 / 2 - y < (1 + 1 / 2) / 32768)"
  using encode_decode_error [of "1 / 2"] by auto

text \<open>
  Claim C7, as stated: a NaN sample is encoded as one of the two bounds, -32768 or 32767.
  It is encoded as 0.
\<close>

theorem encode_NaN_counterexample:
  "\<not> (sint (encode_sample NaN) = - 32768 \<or> sint (encode_sample NaN) = 32767)"
  by (simp add: encode_sample_def)

text \<open>
  Claim C7, amended. A NaN sample anywhere in the input is encoded as the sample 0, and
  the samples before and after it are encoded as they are without it.
\<close>

theorem encode_NaN_zero:
  "new_Int16Array (float32ToInt16PCM (xs @ NaN # ys)) =
     Inr (map encode_sample xs @ 0 # map encode_sample ys)"
  by (simp add: new_Int16Array_encode encode_sample_def)

section \<open>The transport encoding is reversible\<close>

lemma unat_code_unit: "k < 65536 \<Longrightarrow> unat (word_of_nat k :: 16 word) = k"
  by (simp add: unat_of_nat)

lemma unat_b64_char:
  "unat (b64_char n) =
     (if n < 26 then 65 + n else if n < 52 then 71 + n else if n < 62 then n - 4
      else if n = 62 then 43 else 47)"
proof -
  have "n < 26 \<Longrightarrow> unat (word_of_nat (65 + n) :: 16 word) = 65 + n"
    by (rule unat_code_unit) simp
  moreover have "\<not> n < 26 \<Longrightarrow> n < 52 \<Longrightarrow> unat (word_of_nat (97 + (n - 26)) :: 16 word) = 71 + n"
    by (subst unat_code_unit) simp_all
  moreover have "\<not> n < 52 \<Longrightarrow> n < 62 \<Longrightarrow> unat (word_of_nat (48 + (n - 52)) :: 16 word) = n - 4"
    by (subst unat_code_unit) simp_all
  ultimately show ?thesis
    unfolding b64_char_def by simp
qed

lemma b64_index_char: "n < 64 \<Longrightarrow> b64_index (b64_char n) = Some n"
  by (auto simp: b64_index_def unat_b64_char Let_def)

lemma b64_char_not_pad: "b64_char n \<noteq> pad"
proof
  assume "b64_char n = pad"
  then have "unat (b64_char n) = unat pad" by simp
  then show False by (simp add: unat_b64_char pad_def split: if_splits)
qed

lemma b64_char_not_space: "\<not> ascii_whitespace (b64_char n)"
proof
  assume "ascii_whitespace (b64_char n)"
  then have "unat (b64_char n) \<in> {9, 10, 12, 13, 32}"
    by (auto simp: ascii_whitespace_def)
  then show False by (auto simp: unat_b64_char split: if_splits)
qed

lemma pad_not_space: "\<not> ascii_whitespace pad"
  by (simp add: ascii_whitespace_def pad_def)

lemma filter_encode: "filter (\<lambda>c. \<not> ascii_whitespace c) (base64_encode bs) = base64_encode bs"
  by (induction bs rule: base64_encode.induct) (simp_all add: b64_char_not_space pad_not_space)

lemma length_encode: "length (base64_encode bs) mod 4 = 0"
  by (induction bs rule: base64_encode.induct) simp_all

lemma strip_tail_Cons:
  "length ys \<ge> 2 \<Longrightarrow> strip_tail (x # ys) = x # strip_tail ys"
  by (cases ys rule: rev_cases; cases "butlast ys" rule: rev_cases) (auto simp: strip_tail_def butlast_append)

lemma length_encode_ge: "bs \<noteq> [] \<Longrightarrow> length (base64_encode bs) \<ge> 4"
  by (induction bs rule: base64_encode.induct) simp_all

lemma strip_tail_encode: "strip_tail (base64_encode bs) = map b64_char (sextets bs)"
proof (induction bs rule: base64_encode.induct)
  case 1
  show ?case by (simp add: strip_tail_def)
next
  case (2 a)
  show ?case by (simp add: strip_tail_def b64_char_not_pad)
next
  case (3 a b)
  show ?case by (simp add: strip_tail_def b64_char_not_pad)
next
  case (4 a b c bytes)
  show ?case
  proof (cases "bytes = []")
    case True
    then show ?thesis by (simp add: strip_tail_def b64_char_not_pad)
  next
    case False
    then have "length (base64_encode bytes) \<ge> 4" by (rule length_encode_ge)
    then show ?thesis using 4 by (simp add: strip_tail_Cons)
  qed
qed

lemma length_sextets: "length (sextets bs) mod 4 \<noteq> Suc 0"
  by (induction bs rule: sextets.induct) simp_all

lemma sextets_bound: "\<forall>b\<in>set bs. b < 256 \<Longrightarrow> \<forall>s\<in>set (sextets bs). s < 64"
  by (induction bs rule: sextets.induct) auto

lemma those_index: "\<forall>s\<in>set sx. s < 64 \<Longrightarrow> those (map (b64_index \<circ> b64_char) sx) = Some sx"
  by (induction sx) (simp_all add: b64_index_char)

lemma decode_sextets_sextets: "\<forall>b\<in>set bs. b < 256 \<Longrightarrow> decode_sextets (sextets bs) = bs"
  by (induction bs rule: sextets.induct) auto

lemma atob_encode:
  assumes "\<forall>b\<in>set bs. b < 256"
  shows "atob (base64_encode bs) = Inr (map of_nat bs)"
proof -
  have "strip_padding (filter (\<lambda>c. \<not> ascii_whitespace c) (base64_encode bs)) = map b64_char (sextets bs)"
    by (simp add: filter_encode strip_padding_def length_encode strip_tail_encode)
  then show ?thesis
    using assms by (simp add: atob_def length_sextets those_index sextets_bound decode_sextets_sextets)
qed

lemma byte_bound: "unat (b :: 8 word) < 256"
  using unsigned_less [of b, where 'a = nat] by simp

lemma byte_le: "\<not> 255 < unat (b :: 8 word)"
  using byte_bound [of b] by simp

lemma unat_ucast_byte: "unat (ucast (b :: 8 word) :: 16 word) = unat b"
  using byte_bound [of b] by (simp add: unsigned_ucast_eq take_bit_nat_eq_self) 

lemma ucast_of_nat_unat: "ucast (ucast b :: 16 word) = (b :: 8 word)"
  by (simp add: ucast_up_ucast_id is_up)

lemma arrayBufferToBase64_eq: "arrayBufferToBase64 b = Inr (base64_encode (map unat b))"
  by (simp add: arrayBufferToBase64_def btoa_def list_ex_iff unat_ucast_byte o_def byte_le)

lemma base64ToUint8Array_encode: "base64ToUint8Array (base64_encode (map unat b)) = Inr b"
proof -
  have "\<forall>x\<in>set (map unat b). x < 256"
    using byte_bound by simp
  then have "atob (base64_encode (map unat b)) = Inr (map of_nat (map unat b))"
    by (rule atob_encode)
  then show ?thesis
    by (simp add: base64ToUint8Array_def o_def ucast_of_nat_unat)
qed

lemma text_char_b64_char: "base64_text_char (b64_char n)"
  unfolding base64_text_char_def unat_b64_char Let_def by (simp; arith)

lemma text_char_pad: "base64_text_char pad"
  by (simp add: base64_text_char_def pad_def)

lemma text_chars_encode: "list_all base64_text_char (base64_encode bs)"
  by (induction bs rule: base64_encode.induct) (simp_all add: text_char_b64_char text_char_pad)

text \<open>
  Claim C9. For every byte sequence, \<^verbatim>\<open>arrayBufferToBase64\<close> returns a text, every
  character of the text is a letter, a digit, \<open>+\<close>, \<open>/\<close> or \<open>=\<close>, and
  \<^verbatim>\<open>base64ToUint8Array\<close> of the text returns the byte sequence.
\<close>

theorem base64_round_trip:
  "\<exists>encoded. arrayBufferToBase64 b = Inr encoded
     \<and> base64ToUint8Array encoded = Inr b
     \<and> list_all base64_text_char encoded"
  using arrayBufferToBase64_eq [of b] base64ToUint8Array_encode [of b]
    text_chars_encode [of "map unat b"]
  by simp

theorem base64_round_trip_witness:
  "arrayBufferToBase64 [77, 97] = Inr [84, 87, 69, 61]
   \<and> (\<exists>encoded. arrayBufferToBase64 [77, 97] = Inr encoded
     \<and> base64ToUint8Array encoded = Inr [77, 97]
     \<and> list_all base64_text_char encoded)"
  using base64_round_trip [of "[77, 97]"]
  by (simp add: arrayBufferToBase64_def btoa_def b64_char_def pad_def)

section \<open>The schedule of a session\<close>

lemma schedule_start:
  "start_at (fst (schedule now source buffer p)) = (if nextStartTime p < now then now else nextStartTime p)"
  by (simp add: schedule_def Let_def)

lemma schedule_cursor:
  "nextStartTime (snd (schedule now source buffer p)) =
     start_at (fst (schedule now source buffer p)) + duration buffer"
  by (simp add: schedule_def Let_def)

lemma schedule_played: "played (fst (schedule now source buffer p)) = buffer"
  by (simp add: schedule_def Let_def)

lemma playChunk_Inr:
  assumes "playChunk env b p = Inr (s, p')"
  shows "start_at s = (if nextStartTime p < currentTime env then currentTime env else nextStartTime p)"
    and "nextStartTime p' = start_at s + duration (played s)"
proof -
  from assms obtain buffer where
    sp: "schedule (currentTime env) (new_source env) buffer p = (s, p')"
    by (auto simp: playChunk_def split: sum.splits)
  then have s: "s = fst (schedule (currentTime env) (new_source env) buffer p)"
    and p': "p' = snd (schedule (currentTime env) (new_source env) buffer p)"
    by (metis fst_conv, metis snd_conv)
  show "start_at s = (if nextStartTime p < currentTime env then currentTime env else nextStartTime p)"
    unfolding s by (rule schedule_start)
  show "nextStartTime p' = start_at s + duration (played s)"
    unfolding s p' by (simp add: schedule_cursor schedule_played)
qed

lemma run_starts:
  fixes p :: "'t::{zero,plus,linorder} LiveAudioPlayer"
  assumes "Stop \<notin> set cs" and "keeps_ahead cs p" and "i < length (fst (run cs p))"
  shows "start_at (fst (run cs p) ! i) =
           foldl (+) (nextStartTime p) (map (\<lambda>s. duration (played s)) (take i (fst (run cs p))))"
  using assms
proof (induction cs arbitrary: p i)
  case Nil
  then show ?case by simp
next
  case (Cons c cs)
  show ?case
  proof (cases c)
    case (PlayChunk env b)
    show ?thesis
    proof (cases "playChunk env b p")
      case (Inl e)
      with Cons PlayChunk show ?thesis by simp
    next
      case (Inr r)
      obtain s p' where r: "r = (s, p')" by (cases r)
      have pc: "playChunk env b p = Inr (s, p')" using Inr r by simp
      have ahead: "currentTime env \<le> nextStartTime p" and rest: "keeps_ahead cs p'"
        using Cons.prems(2) PlayChunk pc by simp_all
      have s0: "start_at s = nextStartTime p"
        using playChunk_Inr(1) [OF pc] ahead by auto
      have cur: "nextStartTime p' = nextStartTime p + duration (played s)"
        using playChunk_Inr(2) [OF pc] s0 by simp
      have run_eq: "fst (run (c # cs) p) = s # fst (run cs p')"
        using PlayChunk pc by (simp add: split_beta)
      show ?thesis
      proof (cases i)
        case 0
        then show ?thesis by (simp add: run_eq s0)
      next
        case (Suc j)
        have "j < length (fst (run cs p'))" using Cons.prems(3) Suc run_eq by simp
        then have "start_at (fst (run cs p') ! j) =
           foldl (+) (nextStartTime p') (map (\<lambda>s. duration (played s)) (take j (fst (run cs p'))))"
          using Cons.IH [of p' j] Cons.prems(1) rest by simp
        then show ?thesis by (simp add: run_eq Suc cur)
      qed
    qed
  next
    case Stop
    with Cons.prems show ?thesis by simp
  next
    case (Ended source)
    have "nextStartTime (onended source p) = nextStartTime p" by (simp add: onended_def)
    with Cons Ended show ?thesis by simp
  qed
qed

lemma foldl_take_Suc:
  "i < length ds \<Longrightarrow> foldl f c (take (Suc i) ds) = f (foldl f c (take i ds)) (ds ! i)"
  by (simp add: take_Suc_conv_app_nth)

lemma decode_pcm_silence:
  "decode_pcm env [65, 65, 65, 61] =
     Inr \<lparr>channelData = [Fin 0], duration = buffer_duration env 1\<rparr>"
  by (simp add: decode_pcm_def base64ToUint8Array_def atob_def strip_padding_def strip_tail_def
      ascii_whitespace_def b64_index_def pad_def new_Int16Array_def createBuffer_def
      fill_channelData_def decode_sample_def)

lemma decode_pcm_malformed: "decode_pcm env [33] = Inl InvalidCharacterError"
  by (simp add: decode_pcm_def base64ToUint8Array_def atob_def strip_padding_def strip_tail_def
      ascii_whitespace_def b64_index_def pad_def)

lemma currentTime_clock: "currentTime (clock t n) = t"
  by (simp add: clock_def)

lemma playChunk_silence:
  "playChunk (clock t n) [65, 65, 65, 61] p =
     Inr (schedule t n \<lparr>channelData = [Fin 0], duration = 1\<rparr> p)"
  by (simp add: playChunk_def resume_def decode_pcm_silence clock_def)

lemma playChunk_malformed: "playChunk (clock t n) [33] p = Inl InvalidCharacterError"
  by (simp add: playChunk_def resume_def decode_pcm_malformed clock_def)

text \<open>
  Claim C1. In a session whose first chunk is scheduled at some offset and in which no
  \<^verbatim>\<open>stop()\<close> follows, if at every later scheduling the clock has not passed the cursor,
  then the chunk of index \<open>i\<close> starts at the offset plus the durations of the chunks
  before it, added in order, and every chunk starts exactly where the one before it ends.
  The offset is the clock reading at the first chunk, or the cursor if that is later.
\<close>

theorem chunks_contiguous:
  fixes p :: "'t::{zero,plus,linorder} LiveAudioPlayer"
  assumes first: "playChunk env base64Audio p = Inr (s0, p1)"
    and no_stop: "Stop \<notin> set cs"
    and ahead: "keeps_ahead cs p1"
    and ss: "ss = fst (run (PlayChunk env base64Audio # cs) p)"
    and i: "i < length ss"
  shows "start_at (ss ! i) = foldl (+) (start_at s0) (map (\<lambda>s. duration (played s)) (take i ss))
       \<and> (Suc i < length ss \<longrightarrow> start_at (ss ! Suc i) = start_at (ss ! i) + duration (played (ss ! i)))
       \<and> ss ! 0 = s0
       \<and> start_at s0 = (if nextStartTime p < currentTime env then currentTime env else nextStartTime p)"
proof -
  have ss_eq: "ss = s0 # fst (run cs p1)"
    using ss first by (simp add: split_beta)
  have cur: "nextStartTime p1 = start_at s0 + duration (played s0)"
    by (rule playChunk_Inr(2) [OF first])
  have all: "start_at (ss ! k) = foldl (+) (start_at s0) (map (\<lambda>s. duration (played s)) (take k ss))"
    if "k < length ss" for k
  proof (cases k)
    case 0
    then show ?thesis by (simp add: ss_eq)
  next
    case (Suc j)
    then have "j < length (fst (run cs p1))" using that ss_eq by simp
    from run_starts [OF no_stop ahead this] show ?thesis
      by (simp add: ss_eq Suc cur)
  qed
  have step: "start_at (ss ! Suc i) = start_at (ss ! i) + duration (played (ss ! i))"
    if "Suc i < length ss"
  proof -
    have "i < length (map (\<lambda>s. duration (played s)) ss)" using i by simp
    then have "foldl (+) (start_at s0) (take (Suc i) (map (\<lambda>s. duration (played s)) ss)) =
          foldl (+) (start_at s0) (take i (map (\<lambda>s. duration (played s)) ss)) + (map (\<lambda>s. duration (played s)) ss) ! i"
      by (rule foldl_take_Suc)
    then show ?thesis using all [OF that] all [OF i] i by (simp add: take_map)
  qed
  show ?thesis
    using all [OF i] step playChunk_Inr(1) [OF first] by (simp add: ss_eq)
qed

theorem chunks_contiguous_witness:
  "playChunk (clock 0 0) [65, 65, 65, 61] \<lparr>nextStartTime = 0, queue = []\<rparr> =
     Inr (\<lparr>node = 0, start_at = 0, played = \<lparr>channelData = [Fin 0], duration = 1\<rparr>\<rparr>,
          \<lparr>nextStartTime = 1, queue = [0]\<rparr>)
   \<and> Stop \<notin> set [PlayChunk (clock 0 1) [65, 65, 65, 61], Ended 0, PlayChunk (clock 1 2) [33],
        PlayChunk (clock 1 3) [65, 65, 65, 61]]
   \<and> keeps_ahead [PlayChunk (clock 0 1) [65, 65, 65, 61], Ended 0, PlayChunk (clock 1 2) [33],
        PlayChunk (clock 1 3) [65, 65, 65, 61]] \<lparr>nextStartTime = 1, queue = [0]\<rparr>
   \<and> map start_at (fst (run [PlayChunk (clock 0 0) [65, 65, 65, 61],
        PlayChunk (clock 0 1) [65, 65, 65, 61], Ended 0, PlayChunk (clock 1 2) [33],
        PlayChunk (clock 1 3) [65, 65, 65, 61]] \<lparr>nextStartTime = 0, queue = []\<rparr>)) = [0, 1, 2]
   \<and> start_at (fst (run [PlayChunk (clock 0 0) [65, 65, 65, 61],
        PlayChunk (clock 0 1) [65, 65, 65, 61], Ended 0, PlayChunk (clock 1 2) [33],
        PlayChunk (clock 1 3) [65, 65, 65, 61]] \<lparr>nextStartTime = 0, queue = []\<rparr>) ! 2) =
      foldl (+) 0 [1, 1]"
proof -
  let ?p = "\<lparr>nextStartTime = 0 :: int, queue = []\<rparr>"
  let ?p1 = "\<lparr>nextStartTime = 1 :: int, queue = [0]\<rparr>"
  let ?s0 = "\<lparr>node = 0, start_at = 0 :: int, played = \<lparr>channelData = [Fin 0], duration = 1\<rparr>\<rparr>"
  let ?cs = "[PlayChunk (clock 0 1) [65, 65, 65, 61], Ended 0, PlayChunk (clock 1 2) [33],
        PlayChunk (clock 1 3) [65, 65, 65, 61]]"
  let ?ss = "fst (run (PlayChunk (clock 0 0) [65, 65, 65, 61] # ?cs) ?p)"
  have first: "playChunk (clock 0 0) [65, 65, 65, 61] ?p = Inr (?s0, ?p1)"
    by (simp add: playChunk_silence schedule_def)
  have no_stop: "Stop \<notin> set ?cs"
    by simp
  have ahead: "keeps_ahead ?cs ?p1"
    by (simp add: playChunk_silence playChunk_malformed schedule_def onended_def currentTime_clock)
  have starts: "map start_at ?ss = [0, 1, 2]"
    by (simp add: playChunk_silence playChunk_malformed schedule_def onended_def)
  have len: "2 < length ?ss"
    using arg_cong [OF starts, of length] by simp
  have durs: "map (\<lambda>s. duration (played s)) (take 2 ?ss) = [1, 1]"
    by (simp add: playChunk_silence playChunk_malformed schedule_def onended_def)
  from chunks_contiguous [OF first no_stop ahead refl len]
  have "start_at (?ss ! 2) = foldl (+) 0 [1, 1]"
    unfolding durs by simp
  with first no_stop ahead starts show ?thesis
    by blast
qed

text \<open>
  Claim C2. A chunk that is scheduled while the cursor is strictly behind the clock starts
  at the clock reading, and the cursor is afterwards that reading plus the duration of
  the chunk.
\<close>

theorem late_chunk_starts_now:
  assumes "playChunk env base64Audio p = Inr (s, p')" and "nextStartTime p < currentTime env"
  shows "start_at s = currentTime env \<and> nextStartTime p' = currentTime env + duration (played s)"
  using playChunk_Inr [OF assms(1)] assms(2) by simp

theorem late_chunk_starts_now_witness:
  "playChunk (clock 5 0) [65, 65, 65, 61] \<lparr>nextStartTime = 2, queue = []\<rparr> =
     Inr (\<lparr>node = 0, start_at = 5, played = \<lparr>channelData = [Fin 0], duration = 1\<rparr>\<rparr>,
          \<lparr>nextStartTime = 6, queue = [0]\<rparr>)
   \<and> nextStartTime \<lparr>nextStartTime = 2 :: int, queue = []\<rparr> < currentTime (clock 5 0)
   \<and> start_at \<lparr>node = 0, start_at = 5 :: int, played = \<lparr>channelData = [Fin 0], duration = 1\<rparr>\<rparr> =
       currentTime (clock 5 0)
   \<and> nextStartTime \<lparr>nextStartTime = 6 :: int, queue = [0]\<rparr> = currentTime (clock 5 0) + 1"
proof -
  have run: "playChunk (clock 5 0) [65, 65, 65, 61] \<lparr>nextStartTime = 2, queue = []\<rparr> =
     Inr (\<lparr>node = 0, start_at = 5, played = \<lparr>channelData = [Fin 0], duration = 1\<rparr>\<rparr>,
          \<lparr>nextStartTime = 6, queue = [0]\<rparr>)"
    by (simp add: playChunk_silence schedule_def)
  have late: "nextStartTime \<lparr>nextStartTime = 2 :: int, queue = []\<rparr> < currentTime (clock 5 0)"
    by (simp add: currentTime_clock)
  from late_chunk_starts_now [OF run late] run late show ?thesis
    by simp
qed

lemma playChunk_cong:
  fixes p q :: "'t::{plus,linorder} LiveAudioPlayer"
  assumes "queue p = queue q"
    and "(if nextStartTime p < currentTime env then currentTime env else nextStartTime p) =
         (if nextStartTime q < currentTime env then currentTime env else nextStartTime q)"
  shows "playChunk env b p = playChunk env b q"
  using assms
  by (auto simp: playChunk_def schedule_def Let_def split: sum.splits if_splits)

text \<open>
  Claim C3. In every state \<^verbatim>\<open>stop()\<close> halts the nodes of the queue, empties the queue
  and sets the cursor to 0. With an empty queue it halts nothing; on a stopped player it
  changes nothing; and when nothing is scheduled and the cursor, not negative, is not ahead
  of the clock, the next \<^verbatim>\<open>playChunk\<close> does the same with and without the \<^verbatim>\<open>stop()\<close>.
  A \<^verbatim>\<open>playChunk\<close> after \<^verbatim>\<open>stop()\<close> does what it does on a newly constructed player.
\<close>

theorem stop_resets:
  fixes p :: "'t::{zero,plus,linorder} LiveAudioPlayer"
  shows "fst (stop p) = queue p
       \<and> snd (stop p) = \<lparr>nextStartTime = 0, queue = []\<rparr>
       \<and> (queue p = [] \<longrightarrow> fst (stop p) = [])
       \<and> stop (snd (stop p)) = ([], snd (stop p))
       \<and> (queue p = [] \<and> 0 \<le> nextStartTime p \<and> nextStartTime p \<le> currentTime env \<longrightarrow>
            playChunk env base64Audio (snd (stop p)) = playChunk env base64Audio p)
       \<and> (constructor env0 = Inr fresh \<longrightarrow>
            playChunk env base64Audio (snd (stop p)) = playChunk env base64Audio fresh)"
proof -
  have a: "snd (stop p) = \<lparr>nextStartTime = 0, queue = []\<rparr>" by (simp add: stop_def)
  have b: "queue p = [] \<and> 0 \<le> nextStartTime p \<and> nextStartTime p \<le> currentTime env \<longrightarrow>
            playChunk env base64Audio (snd (stop p)) = playChunk env base64Audio p"
    by (auto simp: a intro!: playChunk_cong)
  have c: "constructor env0 = Inr fresh \<longrightarrow> snd (stop p) = fresh"
    by (auto simp: a constructor_def split: option.splits)
  show ?thesis using a b c by (auto simp: stop_def)
qed

theorem stop_resets_witness:
  "fst (stop \<lparr>nextStartTime = 7 :: int, queue = [1, 2]\<rparr>) = [1, 2]
   \<and> snd (stop \<lparr>nextStartTime = 7 :: int, queue = [1, 2]\<rparr>) = \<lparr>nextStartTime = 0, queue = []\<rparr>
   \<and> queue \<lparr>nextStartTime = 3 :: int, queue = []\<rparr> = []
   \<and> 0 \<le> nextStartTime \<lparr>nextStartTime = 3 :: int, queue = []\<rparr>
   \<and> nextStartTime \<lparr>nextStartTime = 3 :: int, queue = []\<rparr> \<le> currentTime (clock 5 0)
   \<and> playChunk (clock 5 0) [65, 65, 65, 61] (snd (stop \<lparr>nextStartTime = 3, queue = []\<rparr>)) =
       playChunk (clock 5 0) [65, 65, 65, 61] \<lparr>nextStartTime = 3, queue = []\<rparr>
   \<and> constructor (clock 0 0) = Inr \<lparr>nextStartTime = 0, queue = []\<rparr>
   \<and> playChunk (clock 5 0) [65, 65, 65, 61] (snd (stop \<lparr>nextStartTime = 3, queue = []\<rparr>)) =
       playChunk (clock 5 0) [65, 65, 65, 61] \<lparr>nextStartTime = 0, queue = []\<rparr>"
proof -
  have fresh: "constructor (clock 0 0) = Inr \<lparr>nextStartTime = 0 :: int, queue = []\<rparr>"
    by (simp add: constructor_def clock_def)
  have idle: "queue \<lparr>nextStartTime = 3 :: int, queue = []\<rparr> = []
      \<and> 0 \<le> nextStartTime \<lparr>nextStartTime = 3 :: int, queue = []\<rparr>
      \<and> nextStartTime \<lparr>nextStartTime = 3 :: int, queue = []\<rparr> \<le> currentTime (clock 5 0)"
    by (simp add: currentTime_clock)
  have halt: "fst (stop \<lparr>nextStartTime = 7 :: int, queue = [1, 2]\<rparr>) = [1, 2]
      \<and> snd (stop \<lparr>nextStartTime = 7 :: int, queue = [1, 2]\<rparr>) = \<lparr>nextStartTime = 0, queue = []\<rparr>"
    using stop_resets [of "\<lparr>nextStartTime = 7, queue = [1, 2]\<rparr>" "clock 5 0"
        "[65, 65, 65, 61]" "clock 0 0" "\<lparr>nextStartTime = 0, queue = []\<rparr>"]
    by simp
  have same: "playChunk (clock 5 0) [65, 65, 65, 61] (snd (stop \<lparr>nextStartTime = 3, queue = []\<rparr>)) =
       playChunk (clock 5 0) [65, 65, 65, 61] \<lparr>nextStartTime = 3, queue = []\<rparr>
     \<and> playChunk (clock 5 0) [65, 65, 65, 61] (snd (stop \<lparr>nextStartTime = 3, queue = []\<rparr>)) =
       playChunk (clock 5 0) [65, 65, 65, 61] \<lparr>nextStartTime = 0, queue = []\<rparr>"
    using stop_resets [of "\<lparr>nextStartTime = 3, queue = []\<rparr>" "clock 5 0"
        "[65, 65, 65, 61]" "clock 0 0" "\<lparr>nextStartTime = 0, queue = []\<rparr>"]
      fresh idle
    by blast
  show ?thesis
    using halt same fresh idle by blast
qed

section \<open>One-shot playback never throws\<close>

text \<open>
  Claim C8. For every text and every answer of the audio context the promise of
  \<^verbatim>\<open>playPCMAudio\<close> is fulfilled. When the body has thrown, the error is on the console
  and no buffer has been started; otherwise the buffer has been started and nothing is
  logged.
\<close>

theorem playPCMAudio_never_throws:
  "\<exists>g'. playPCMAudio env base64Audio g = Inr g' \<and>
     (case fst (playPCMAudio_try env base64Audio g) of
        Inl e \<Rightarrow> console g' = console g @ [e] \<and> started g' = started g
      | Inr buffer \<Rightarrow> console g' = console g \<and> started g' = started g @ [channelData buffer])"
  by (auto simp: playPCMAudio_def playPCMAudio_try_def Let_def split: sum.splits option.splits prod.splits)

theorem playPCMAudio_never_throws_witness:
  "fst (playPCMAudio_try (clock 0 0) [33] \<lparr>audioContext = False, console = [], started = []\<rparr>) =
     Inl InvalidCharacterError
   \<and> playPCMAudio (clock 0 0) [33] \<lparr>audioContext = False, console = [], started = []\<rparr> =
     Inr \<lparr>audioContext = True, console = [InvalidCharacterError], started = []\<rparr>
   \<and> (\<exists>g'. playPCMAudio (clock 0 0) [33] \<lparr>audioContext = False, console = [], started = []\<rparr> = Inr g'
        \<and> console g' = [InvalidCharacterError] \<and> started g' = [])"
proof -
  let ?g = "\<lparr>audioContext = False, console = [], started = []\<rparr>"
  have body: "playPCMAudio_try (clock 0 0) [33] ?g =
      (Inl InvalidCharacterError, \<lparr>audioContext = True, console = [], started = []\<rparr>)"
    by (simp add: playPCMAudio_try_def resume_def decode_pcm_malformed clock_def)
  have whole: "playPCMAudio (clock 0 0) [33] ?g =
     Inr \<lparr>audioContext = True, console = [InvalidCharacterError], started = []\<rparr>"
    by (simp add: playPCMAudio_def body)
  show ?thesis
    using playPCMAudio_never_throws [of "clock 0 0" "[33]" ?g] body whole
    by simp
qed

section \<open>Sums of numbers\<close>











section \<open>The statistics of a user\<close>







end
